theory Spec2Isabelle
  imports Complex_Main "HOL-Library.AList"
begin

section \<open>Python values\<close>

text \<open>
  The values that \<^verbatim>\<open>json.loads\<close> produces and that \<^verbatim>\<open>get_schema\<close> and \<^verbatim>\<open>merge\<close>
  build: \<^verbatim>\<open>None\<close>, \<^verbatim>\<open>bool\<close>, \<^verbatim>\<open>int\<close>, \<^verbatim>\<open>float\<close>, \<^verbatim>\<open>str\<close>, \<^verbatim>\<open>list\<close> and \<^verbatim>\<open>dict\<close>
  with string keys. A dict is an association list in insertion order. A float is
  its value: a finite number, an infinity or a NaN (\<^verbatim>\<open>json.loads\<close> accepts
  \<^verbatim>\<open>NaN\<close> and \<^verbatim>\<open>Infinity\<close>). The code does no arithmetic, so a finite float is
  the rational it stands for. A NaN carries the identity of its float object,
  which the comparison of lists and dicts looks at.
\<close>

datatype pyfloat =
    Finite rat
  | PosInf
  | NegInf
  | NaN nat

datatype pyval =
    PNone
  | PBool bool
  | PInt int
  | PFloat pyfloat
  | PStr string
  | PList "pyval list"
  | PDict "(string \<times> pyval) list"

type_synonym dict = "(string \<times> pyval) list"

text \<open>
  The exceptions of the two functions. \<^verbatim>\<open>merge\<close> raises a plain
  \<^verbatim>\<open>Exception\<close> that carries its message.
\<close>

datatype py_error =
    UnboundLocalError
  | AttributeError
  | TypeError
  | KeyError
  | Exception string

subsection \<open>Dict operations\<close>

text \<open>\<^verbatim>\<open>d.get(k)\<close> on a dict, with \<open>None\<close> for a missing key.\<close>

definition dict_get :: "dict \<Rightarrow> string \<Rightarrow> pyval option" where
  "dict_get d k = map_of d k"

text \<open>\<^verbatim>\<open>d[k] = v\<close>: an existing key keeps its position, a new key is appended.\<close>

definition dict_set :: "dict \<Rightarrow> string \<Rightarrow> pyval \<Rightarrow> dict" where
  "dict_set d k v = AList.update k v d"

text \<open>\<^verbatim>\<open>d.update(e)\<close>: the items of \<open>e\<close> are stored into \<open>d\<close> in order.\<close>

definition dict_update :: "dict \<Rightarrow> dict \<Rightarrow> dict" where
  "dict_update d e = fold (\<lambda>(k, v) acc. dict_set acc k v) e d"

text \<open>The representation invariant of a Python dict: no key occurs twice, at any depth.\<close>

fun wf_py :: "pyval \<Rightarrow> bool" where
  "wf_py (PList xs) = (\<forall>x \<in> set xs. wf_py x)"
| "wf_py (PDict d) = (distinct (map fst d) \<and> (\<forall>(k, v) \<in> set d. wf_py v))"
| "wf_py _ = True"

subsection \<open>Truth value, equality, membership\<close>

text \<open>Python's truth value testing (\<^verbatim>\<open>if x:\<close>, \<^verbatim>\<open>x and y\<close>).\<close>

fun truthy :: "pyval \<Rightarrow> bool" where
  "truthy PNone = False"
| "truthy (PBool b) = b"
| "truthy (PInt i) = (i \<noteq> 0)"
| "truthy (PFloat r) = (r \<noteq> Finite 0)"
| "truthy (PStr s) = (s \<noteq> [])"
| "truthy (PList xs) = (xs \<noteq> [])"
| "truthy (PDict d) = (d \<noteq> [])"

fun num_of :: "pyval \<Rightarrow> pyfloat option" where
  "num_of (PBool b) = Some (Finite (if b then 1 else 0))"
| "num_of (PInt i) = Some (Finite (of_int i))"
| "num_of (PFloat r) = Some r"
| "num_of _ = None"

definition is_nan :: "pyval \<Rightarrow> bool" where
  "is_nan v = (case v of PFloat (NaN i) \<Rightarrow> True | _ \<Rightarrow> False)"

text \<open>\<^verbatim>\<open>x is y\<close> for two NaN floats: the same float object.\<close>

definition same_nan :: "pyval \<Rightarrow> pyval \<Rightarrow> bool" where
  "same_nan v w = (case v of
       PFloat (NaN i) \<Rightarrow> (case w of PFloat (NaN j) \<Rightarrow> i = j | _ \<Rightarrow> False)
     | _ \<Rightarrow> False)"

text \<open>
  Python's \<^verbatim>\<open>==\<close>: numbers (bool included) compare by value and a NaN is
  unequal to every number, itself included; values of unrelated types are
  unequal; lists compare elementwise and dicts as key-value sets whatever their
  order, where two elements match when they are the same object or equal
  (\<^verbatim>\<open>x is y or x == y\<close>). The identity makes a difference for a NaN only.
\<close>

fun py_eq :: "pyval \<Rightarrow> pyval \<Rightarrow> bool" where
  "py_eq (PList xs) w = (case w of
       PList ys \<Rightarrow> list_all2 (\<lambda>x y. same_nan x y \<or> py_eq x y) xs ys
     | _ \<Rightarrow> False)"
| "py_eq (PDict d) w = (case w of
       PDict e \<Rightarrow> length d = length e \<and>
         (\<forall>(k, v) \<in> set d. case map_of e k of
                                None \<Rightarrow> False
                              | Some v' \<Rightarrow> same_nan v v' \<or> py_eq v v')
     | _ \<Rightarrow> False)"
| "py_eq (PStr s) w = (case w of PStr t \<Rightarrow> s = t | _ \<Rightarrow> False)"
| "py_eq PNone w = (case w of PNone \<Rightarrow> True | _ \<Rightarrow> False)"
| "py_eq v w = (case (num_of v, num_of w) of
       (Some x, Some y) \<Rightarrow> (case x of NaN i \<Rightarrow> False | _ \<Rightarrow> x = y)
     | _ \<Rightarrow> False)"

text \<open>
  \<^verbatim>\<open>isinstance\<close>. In Python \<^verbatim>\<open>bool\<close> is a subclass of \<^verbatim>\<open>int\<close>, so
  \<^verbatim>\<open>isinstance(True, (int, float))\<close> holds.
\<close>

definition isinstance_int_float :: "pyval \<Rightarrow> bool" where
  "isinstance_int_float v =
     (case v of PInt _ \<Rightarrow> True | PFloat _ \<Rightarrow> True | PBool _ \<Rightarrow> True | _ \<Rightarrow> False)"

definition isinstance_bool :: "pyval \<Rightarrow> bool" where
  "isinstance_bool v = (case v of PBool _ \<Rightarrow> True | _ \<Rightarrow> False)"

definition isinstance_str :: "pyval \<Rightarrow> bool" where
  "isinstance_str v = (case v of PStr _ \<Rightarrow> True | _ \<Rightarrow> False)"

definition isinstance_dict :: "pyval \<Rightarrow> bool" where
  "isinstance_dict v = (case v of PDict _ \<Rightarrow> True | _ \<Rightarrow> False)"

text \<open>\<^verbatim>\<open>x.get(k)\<close> on any value: only a dict has the method.\<close>

definition py_get :: "pyval \<Rightarrow> string \<Rightarrow> py_error + pyval" where
  "py_get d k = (case d of
       PDict e \<Rightarrow> Inr (case dict_get e k of None \<Rightarrow> PNone | Some v \<Rightarrow> v)
     | _ \<Rightarrow> Inl AttributeError)"

text \<open>
  \<^verbatim>\<open>k in item\<close>. \<^verbatim>\<open>get_schema\<close> evaluates it only on values that are dicts
  (the elements of an array each of which it has already walked with
  \<^verbatim>\<open>.items()\<close>, and a table stored earlier), so the other case is never reached.
\<close>

definition py_in :: "string \<Rightarrow> pyval \<Rightarrow> bool" where
  "py_in k item = (case item of PDict d \<Rightarrow> dict_get d k \<noteq> None | _ \<Rightarrow> False)"

subsection \<open>Strings\<close>

text \<open>\<^verbatim>\<open>str.capitalize()\<close> on ASCII text: first character upper case, the rest lower case.\<close>

definition upper_char :: "char \<Rightarrow> char" where
  "upper_char c =
     (let n = (of_char c :: nat) in if 97 \<le> n \<and> n \<le> 122 then char_of (n - 32) else c)"

definition lower_char :: "char \<Rightarrow> char" where
  "lower_char c =
     (let n = (of_char c :: nat) in if 65 \<le> n \<and> n \<le> 90 then char_of (n + 32) else c)"

fun capitalize :: "string \<Rightarrow> string" where
  "capitalize [] = []"
| "capitalize (c # cs) = upper_char c # map lower_char cs"

text \<open>\<^verbatim>\<open>'.'.join(path)\<close>.\<close>

fun join_dots :: "string list \<Rightarrow> string" where
  "join_dots [] = []"
| "join_dots [s] = s"
| "join_dots (s # t # ss) = s @ ''.'' @ join_dots (t # ss)"

section \<open>\<^verbatim>\<open>get_type_string\<close>\<close>

definition get_type_string :: "pyval \<Rightarrow> string" where
  "get_type_string json_value =
     (if isinstance_int_float json_value then ''Number''
      else if isinstance_bool json_value then ''Boolean''
      else if isinstance_str json_value then ''String''
      else if json_value = PNone then ''Null''
      else ''Unknown'')"

section \<open>\<^verbatim>\<open>get_schema\<close>\<close>

text \<open>
  Lines 144 to 146: \<^verbatim>\<open>current_table_field_map\<close> is assigned only when
  \<^verbatim>\<open>field_map\<close> is truthy. \<open>None\<close> is the unassigned local variable.
\<close>

definition bind_field_map :: "pyval \<Rightarrow> string \<Rightarrow> py_error + pyval option" where
  "bind_field_map field_map table_name =
     (if truthy field_map
      then (case py_get field_map table_name of Inl e \<Rightarrow> Inl e | Inr v \<Rightarrow> Inr (Some v))
      else Inr None)"

text \<open>Lines 154 and 174: the default name of a nested table.\<close>

definition default_child_name :: "string \<Rightarrow> string \<Rightarrow> string" where
  "default_child_name table_name json_key =
     (if length table_name > 0 \<and> table_name \<noteq> ''.'' then table_name @ ''.'' else [])
       @ capitalize json_key"

text \<open>
  What the code does when \<^verbatim>\<open>value_name\<close> is truthy and not a string: it calls
  \<^verbatim>\<open>get_schema\<close> on every element with that value as table name and always
  ends in an exception. A list or dict is unhashable, so \<^verbatim>\<open>field_map.get\<close>
  raises \<^verbatim>\<open>TypeError\<close> at the first element. With a bool or a number, an
  element that is not a dict raises \<^verbatim>\<open>AttributeError\<close> (\<^verbatim>\<open>.items()\<close>), an
  element that holds an object or an array of objects raises \<^verbatim>\<open>TypeError\<close>
  (\<^verbatim>\<open>len(table_name)\<close> at line 154 or 174), and when every element has been
  walked the concatenation of line 211 raises \<^verbatim>\<open>TypeError\<close>.
\<close>

definition needs_child_table :: "pyval \<Rightarrow> bool" where
  "needs_child_table v = (case v of
       PDict d \<Rightarrow> True
     | PList xs \<Rightarrow> xs \<noteq> [] \<and> isinstance_dict (hd xs)
     | _ \<Rightarrow> False)"

fun non_string_name_items :: "pyval list \<Rightarrow> py_error" where
  "non_string_name_items [] = TypeError"
| "non_string_name_items (list_item # items) = (case list_item of
       PDict d \<Rightarrow>
         if \<exists>(k, v) \<in> set d. needs_child_table v then TypeError
         else non_string_name_items items
     | _ \<Rightarrow> AttributeError)"

definition non_string_name_error :: "pyval \<Rightarrow> pyval list \<Rightarrow> py_error" where
  "non_string_name_error value_name json_value = (case value_name of
       PList xs \<Rightarrow> TypeError
     | PDict d \<Rightarrow> TypeError
     | _ \<Rightarrow> non_string_name_items json_value)"

text \<open>
  Lines 169 to 174: the name of the table of the array of objects \<open>json_value\<close>.
  Reading the unassigned \<^verbatim>\<open>current_table_field_map\<close> raises
  \<^verbatim>\<open>UnboundLocalError\<close>; \<^verbatim>\<open>.get\<close> on a missing entry (\<^verbatim>\<open>None\<close>) raises
  \<^verbatim>\<open>AttributeError\<close>.
\<close>

definition list_child_name ::
    "pyval option \<Rightarrow> string \<Rightarrow> string \<Rightarrow> pyval list \<Rightarrow> py_error + string" where
  "list_child_name current_table_field_map table_name json_key json_value =
     (case current_table_field_map of
        None \<Rightarrow> Inl UnboundLocalError
      | Some c \<Rightarrow>
          if truthy c then
            (case py_get c json_key of
               Inl e \<Rightarrow> Inl e
             | Inr entry \<Rightarrow>
                 (case py_get entry ''value_name'' of
                    Inl e \<Rightarrow> Inl e
                  | Inr value_name \<Rightarrow>
                      if truthy value_name
                      then (case value_name of
                              PStr s \<Rightarrow> Inr s
                            | _ \<Rightarrow> Inl (non_string_name_error value_name json_value))
                      else Inr (default_child_name table_name json_key)))
          else Inr (default_child_name table_name json_key))"

text \<open>\<^verbatim>\<open>any(k not in item for item in json_value)\<close>.\<close>

definition any_missing :: "string \<Rightarrow> pyval list \<Rightarrow> bool" where
  "any_missing k json_value = (\<exists>item \<in> set json_value. \<not> py_in k item)"

text \<open>\<^verbatim>\<open>v['optional'] = True\<close>.\<close>

definition set_optional :: "pyval \<Rightarrow> py_error + pyval" where
  "set_optional v = (case v of
       PDict d \<Rightarrow> Inr (PDict (dict_set d ''optional'' (PBool True)))
     | _ \<Rightarrow> Inl TypeError)"

text \<open>
  The loops of lines 189 to 193 and 198 to 202: every item of the table whose key
  satisfies the condition gets \<^verbatim>\<open>optional\<close> set, in place.
\<close>

fun mark_optional :: "(string \<Rightarrow> bool) \<Rightarrow> dict \<Rightarrow> py_error + dict" where
  "mark_optional cond [] = Inr []"
| "mark_optional cond ((k, v) # rest) =
     (case (if cond k then set_optional v else Inr v) of
        Inl e \<Rightarrow> Inl e
      | Inr v' \<Rightarrow> (case mark_optional cond rest of
                     Inl e \<Rightarrow> Inl e
                   | Inr rest' \<Rightarrow> Inr ((k, v') # rest')))"

text \<open>
  Lines 181 to 208: the combined items of an array are stored under the child
  table's name, merged with a table of that name stored earlier.
\<close>

definition merge_list_items :: "pyval list \<Rightarrow> string \<Rightarrow> dict \<Rightarrow> dict \<Rightarrow> py_error + dict" where
  "merge_list_items json_value child_table_name child_tables new_list_items =
     (let old_list_items =
            (case dict_get child_tables child_table_name of None \<Rightarrow> PNone | Some v \<Rightarrow> v) in
      case mark_optional
             (\<lambda>k. any_missing k json_value \<or> (truthy old_list_items \<and> \<not> py_in k old_list_items))
             new_list_items of
        Inl e \<Rightarrow> Inl e
      | Inr new' \<Rightarrow>
          if truthy old_list_items then
            (case old_list_items of
               PDict old \<Rightarrow>
                 (case mark_optional (\<lambda>k. any_missing k json_value) old of
                    Inl e \<Rightarrow> Inl e
                  | Inr old' \<Rightarrow>
                      Inr (dict_set child_tables child_table_name (PDict (dict_update old' new'))))
             | _ \<Rightarrow> Inl AttributeError)
          else Inr (dict_set child_tables child_table_name (PDict new')))"

text \<open>The field descriptors of lines 160, 211, 216 and 221.\<close>

definition object_descriptor :: "string \<Rightarrow> pyval" where
  "object_descriptor child_table_name =
     PDict [(''type'', PStr ''Object''), (''value'', PStr (''`'' @ child_table_name @ ''`''))]"

definition array_object_descriptor :: "string \<Rightarrow> pyval" where
  "array_object_descriptor child_table_name =
     PDict [(''type'', PStr ''Array(Object)''),
            (''value'', PStr (''Array of `'' @ child_table_name @ ''`''))]"

definition array_descriptor :: "pyval \<Rightarrow> pyval" where
  "array_descriptor json_value =
     PDict [(''type'', PStr (''Array('' @ get_type_string json_value @ '')'')),
            (''value'', PStr (''Array of '' @ get_type_string json_value))]"

definition scalar_descriptor :: "pyval \<Rightarrow> pyval" where
  "scalar_descriptor json_value = PDict [(''type'', PStr (get_type_string json_value))]"

text \<open>
  \<^verbatim>\<open>get_schema\<close> itself, with its two loops as recursive functions:
  \<open>schema_fields\<close> is the loop over \<^verbatim>\<open>json_object.items()\<close>, with the pair of
  \<^verbatim>\<open>current_table_fields\<close> and \<^verbatim>\<open>child_tables\<close> as its state, and
  \<open>schema_items\<close> the loop of lines 178 and 179 that collects
  \<^verbatim>\<open>new_list_items\<close>. \<^verbatim>\<open>.items()\<close> on a value that is not a dict raises
  \<^verbatim>\<open>AttributeError\<close>.
\<close>

function get_schema :: "pyval \<Rightarrow> string \<Rightarrow> pyval \<Rightarrow> py_error + dict"
  and schema_fields ::
    "dict \<Rightarrow> string \<Rightarrow> pyval \<Rightarrow> pyval option \<Rightarrow> dict \<times> dict \<Rightarrow> py_error + dict \<times> dict"
  and schema_items :: "pyval list \<Rightarrow> string \<Rightarrow> pyval \<Rightarrow> dict \<Rightarrow> py_error + dict"
where
  "get_schema json_object table_name field_map =
     (case bind_field_map field_map table_name of
        Inl e \<Rightarrow> Inl e
      | Inr current_table_field_map \<Rightarrow>
          (case json_object of
             PDict entries \<Rightarrow>
               (case schema_fields entries table_name field_map current_table_field_map ([], []) of
                  Inl e \<Rightarrow> Inl e
                | Inr (current_table_fields, child_tables) \<Rightarrow>
                    Inr (dict_update [(table_name, PDict current_table_fields)] child_tables))
           | _ \<Rightarrow> Inl AttributeError))"
| "schema_fields [] table_name field_map current_table_field_map st = Inr st"
| "schema_fields ((json_key, json_value) # rest) table_name field_map current_table_field_map st =
     (case st of (current_table_fields, child_tables) \<Rightarrow>
      (case json_value of
         PDict d \<Rightarrow>
           (case get_schema json_value (default_child_name table_name json_key) field_map of
              Inl e \<Rightarrow> Inl e
            | Inr tables \<Rightarrow>
                schema_fields rest table_name field_map current_table_field_map
                  (dict_set current_table_fields json_key
                     (object_descriptor (default_child_name table_name json_key)),
                   dict_set child_tables (default_child_name table_name json_key) (PDict tables)))
       | PList xs \<Rightarrow>
           if xs \<noteq> [] \<and> isinstance_dict (hd xs) then
             (case list_child_name current_table_field_map table_name json_key xs of
                Inl e \<Rightarrow> Inl e
              | Inr child_table_name \<Rightarrow>
                  (case schema_items xs child_table_name field_map [] of
                     Inl e \<Rightarrow> Inl e
                   | Inr new_list_items \<Rightarrow>
                       (case merge_list_items xs child_table_name child_tables new_list_items of
                          Inl e \<Rightarrow> Inl e
                        | Inr child_tables' \<Rightarrow>
                            schema_fields rest table_name field_map current_table_field_map
                              (dict_set current_table_fields json_key
                                 (array_object_descriptor child_table_name),
                               child_tables'))))
           else
             schema_fields rest table_name field_map current_table_field_map
               (dict_set current_table_fields json_key (array_descriptor json_value), child_tables)
       | _ \<Rightarrow>
           schema_fields rest table_name field_map current_table_field_map
             (dict_set current_table_fields json_key (scalar_descriptor json_value), child_tables)))"
| "schema_items [] child_table_name field_map new_list_items = Inr new_list_items"
| "schema_items (list_item # items) child_table_name field_map new_list_items =
     (case get_schema list_item child_table_name field_map of
        Inl e \<Rightarrow> Inl e
      | Inr tables \<Rightarrow>
          (case dict_get tables child_table_name of
             None \<Rightarrow> Inl KeyError
           | Some t \<Rightarrow>
               (case t of
                  PDict td \<Rightarrow>
                    schema_items items child_table_name field_map (dict_update new_list_items td)
                | _ \<Rightarrow> Inl TypeError)))"
  by pat_completeness auto
termination
  by (relation "measure (\<lambda>x. case x of
         Inl (v, _) \<Rightarrow> 2 * size v + 1
       | Inr (Inl (es, _)) \<Rightarrow> 2 * size_list (size_prod (\<lambda>_. 0) size) es + 1
       | Inr (Inr (xs, _)) \<Rightarrow> 2 * size_list size xs)") auto

text \<open>
  The \<^verbatim>\<open>child_tables\<close> of a call of \<^verbatim>\<open>get_schema\<close> when its loop has ended:
  the tables that the nested values of \<open>json_object\<close> contributed (empty when
  the call raises).
\<close>

definition child_tables_of :: "pyval \<Rightarrow> string \<Rightarrow> pyval \<Rightarrow> dict" where
  "child_tables_of json_object table_name field_map =
     (case bind_field_map field_map table_name of
        Inl e \<Rightarrow> []
      | Inr current_table_field_map \<Rightarrow>
          (case json_object of
             PDict entries \<Rightarrow>
               (case schema_fields entries table_name field_map current_table_field_map ([], []) of
                  Inl e \<Rightarrow> []
                | Inr (current_table_fields, child_tables) \<Rightarrow> child_tables)
           | _ \<Rightarrow> []))"

text \<open>
  A field descriptor as \<^verbatim>\<open>get_schema\<close> builds it at lines 160, 211, 216 and 221:
  a dict without the key \<^verbatim>\<open>optional\<close>.
\<close>

definition plain :: "pyval \<Rightarrow> bool" where
  "plain v = (\<exists>d. v = PDict d \<and> dict_get d ''optional'' = None)"

section \<open>\<^verbatim>\<open>merge\<close>\<close>

fun the_dict :: "pyval \<Rightarrow> dict" where
  "the_dict (PDict d) = d"
| "the_dict _ = []"

text \<open>
  \<^verbatim>\<open>merge(a, b, path)\<close> mutates \<open>a\<close> in place and either returns it or raises.
  The model returns the state of \<open>a\<close> in both cases, with the exception if one
  was raised: an exception raised in a nested call leaves the nested dict of
  \<open>a\<close> as that call had changed it. The loop \<^verbatim>\<open>for key in b\<close> is the recursion
  over the items of \<open>b\<close>, whose keys are distinct in Python, so that \<^verbatim>\<open>b[key]\<close>
  is the value of the item. The value that the fifth branch stores is \<^verbatim>\<open>b[key]\<close>
  with the description added; \<open>a\<close> and \<open>b\<close> are taken to share no dict before the call.
\<close>

function merge :: "dict \<Rightarrow> dict \<Rightarrow> string list \<Rightarrow> dict \<times> py_error option" where
  "merge a [] path = (a, None)"
| "merge a ((key, bv) # rest) path =
     (case dict_get a key of
        Some av \<Rightarrow>
          if isinstance_dict av \<and> isinstance_dict bv then
            (case merge (the_dict av) (the_dict bv) (path @ [key]) of
               (ad, Some e) \<Rightarrow> (dict_set a key (PDict ad), Some e)
             | (ad, None) \<Rightarrow> merge (dict_set a key (PDict ad)) rest path)
          else if py_eq av bv then merge a rest path
          else if isinstance_dict av \<and> isinstance_str bv then
            merge (dict_set a key (PDict (dict_set (the_dict av) ''description'' bv))) rest path
          else if isinstance_dict bv \<and> isinstance_str av then
            merge (dict_set a key (PDict (dict_set (the_dict bv) ''description'' av))) rest path
          else (a, Some (Exception (''Conflict at '' @ join_dots (path @ [key]))))
      | None \<Rightarrow> merge (dict_set a key bv) rest path)"
  by pat_completeness auto
termination
proof (relation "measure (\<lambda>(a, b, path). size_list (size_prod (\<lambda>_. 0) size) b)")
  show "wf (measure (\<lambda>(a, b, path). size_list (size_prod (\<lambda>_. 0) size) b))"
    by simp
next
  fix a :: dict and key bv rest and path :: "string list" and av :: pyval
  show "((the_dict av, the_dict bv, path @ [key]), a, (key, bv) # rest, path)
          \<in> measure (\<lambda>(a, b, path). size_list (size_prod (\<lambda>_. 0) size) b)"
    by (cases bv) simp_all
qed simp_all

subsection \<open>Notions used to state the properties of \<^verbatim>\<open>merge\<close>\<close>

text \<open>
  Rule 6 of the specification: two values under the same key conflict when
  none of the rules 2 to 5 reconciles them, that is, they are not both mappings,
  they are not equal, and neither is a mapping that meets a string. Two
  unequal scalars are the first instance.
\<close>

definition spec_conflict :: "pyval \<Rightarrow> pyval \<Rightarrow> bool" where
  "spec_conflict av bv =
     (\<not> (isinstance_dict av \<and> isinstance_dict bv) \<and> \<not> py_eq av bv
      \<and> \<not> (isinstance_dict av \<and> isinstance_str bv)
      \<and> \<not> (isinstance_dict bv \<and> isinstance_str av))"

text \<open>
  \<open>conflict_at a b q\<close>: the key path \<open>q\<close> exists in both trees, leads through
  mappings in both, and the two values at its end conflict.
\<close>

fun conflict_at :: "dict \<Rightarrow> dict \<Rightarrow> string list \<Rightarrow> bool" where
  "conflict_at a b [] = False"
| "conflict_at a b (k # q) =
     (case (dict_get a k, dict_get b k) of
        (Some av, Some bv) \<Rightarrow>
          if q = [] then spec_conflict av bv
          else isinstance_dict av \<and> isinstance_dict bv
               \<and> conflict_at (the_dict av) (the_dict bv) q
      | _ \<Rightarrow> False)"

text \<open>The leaf values of a tree: every value that is not a mapping.\<close>

fun leaves :: "pyval \<Rightarrow> pyval list" where
  "leaves (PDict d) = concat (map (\<lambda>(k, v). leaves v) d)"
| "leaves v = [v]"

text \<open>
  \<open>description_free a b\<close>: wherever a mapping of one tree meets a string of the
  other under the same key (rules 4 and 5), the mapping has no
  \<^verbatim>\<open>description\<close> of its own yet.
\<close>

function description_free :: "dict \<Rightarrow> dict \<Rightarrow> bool" where
  "description_free a [] = True"
| "description_free a ((key, bv) # rest) =
     ((case dict_get a key of
         Some av \<Rightarrow>
           if isinstance_dict av \<and> isinstance_dict bv
           then description_free (the_dict av) (the_dict bv)
           else if isinstance_dict av \<and> isinstance_str bv
           then dict_get (the_dict av) ''description'' = None
           else if isinstance_dict bv \<and> isinstance_str av
           then dict_get (the_dict bv) ''description'' = None
           else True
       | None \<Rightarrow> True)
      \<and> description_free a rest)"
  by pat_completeness auto
termination
proof (relation "measure (\<lambda>(a, b). size_list (size_prod (\<lambda>_. 0) size) b)")
  show "wf (measure (\<lambda>(a, b). size_list (size_prod (\<lambda>_. 0) size) b))"
    by simp
next
  fix a :: dict and key bv rest and av :: pyval
  show "((the_dict av, the_dict bv), a, (key, bv) # rest)
          \<in> measure (\<lambda>(a, b). size_list (size_prod (\<lambda>_. 0) size) b)"
    by (cases bv) simp_all
qed simp_all

section \<open>Dict lemmas\<close>

lemma dict_get_set: "dict_get (dict_set d k v) k' = (if k' = k then Some v else dict_get d k')"
  by (simp add: dict_get_def dict_set_def update_conv')

lemma dict_set_same: "dict_get d k = Some v \<Longrightarrow> dict_set d k v = d"
  by (simp add: dict_get_def dict_set_def update_triv)

lemma dict_get_distinct: "distinct (map fst d) \<Longrightarrow> (k, v) \<in> set d \<Longrightarrow> dict_get d k = Some v"
  by (simp add: dict_get_def)

lemma dict_get_Cons: "dict_get ((k, v) # d) k' = (if k' = k then Some v else dict_get d k')"
  by (simp add: dict_get_def)

lemma dict_get_None_iff: "dict_get d k = None \<longleftrightarrow> k \<notin> fst ` set d"
  by (simp add: dict_get_def map_of_eq_None_iff)

lemma set_dict_set: "(k', v') \<in> set (dict_set d k v) \<Longrightarrow> (k', v') = (k, v) \<or> (k', v') \<in> set d"
  by (induction d) (auto simp: dict_set_def split: if_splits)

lemma keys_dict_set: "fst ` set (dict_set d k v) = insert k (fst ` set d)"
  by (simp add: dict_set_def dom_update)

lemma set_dict_update: "(k, v) \<in> set (dict_update d e) \<Longrightarrow> (k, v) \<in> set d \<or> (k, v) \<in> set e"
proof (induction e arbitrary: d)
  case Nil
  then show ?case by (simp add: dict_update_def)
next
  case (Cons x e)
  obtain k' v' where x: "x = (k', v')" by (cases x)
  have "(k, v) \<in> set (dict_set d k' v') \<or> (k, v) \<in> set e"
    using Cons.IH [of "dict_set d k' v'"] Cons.prems x by (simp add: dict_update_def)
  then show ?case using x set_dict_set [of k v d k' v'] by auto
qed

lemma keys_dict_update: "fst ` set (dict_update d e) = fst ` set d \<union> fst ` set e"
proof (induction e arbitrary: d)
  case Nil
  show ?case by (simp add: dict_update_def)
next
  case (Cons x e)
  obtain k' v' where x: "x = (k', v')" by (cases x)
  have "fst ` set (dict_update (dict_set d k' v') e) = fst ` set (dict_set d k' v') \<union> fst ` set e"
    by (rule Cons.IH)
  then show ?case using x by (auto simp: dict_update_def keys_dict_set)
qed

lemma dict_get_update_other:
  "k \<notin> fst ` set e \<Longrightarrow> dict_get (dict_update d e) k = dict_get d k"
proof (induction e arbitrary: d)
  case Nil
  show ?case by (simp add: dict_update_def)
next
  case (Cons x e)
  obtain k' v' where x: "x = (k', v')" by (cases x)
  have "dict_get (dict_update (dict_set d k' v') e) k = dict_get (dict_set d k' v') k"
    using Cons.IH Cons.prems by simp
  then show ?case using x Cons.prems by (simp add: dict_update_def dict_get_set)
qed

section \<open>Properties of \<^verbatim>\<open>get_type_string\<close>\<close>

text \<open>
  Claim C1. \<^verbatim>\<open>get_type_string\<close> is total and returns one of the five labels, but a
  boolean is not labelled \<^verbatim>\<open>Boolean\<close>: the test for \<^verbatim>\<open>(int, float)\<close> comes
  first and a Python \<^verbatim>\<open>bool\<close> is an \<^verbatim>\<open>int\<close>, so \<^verbatim>\<open>True\<close> and \<^verbatim>\<open>False\<close> are
  both labelled \<^verbatim>\<open>Number\<close> and the \<^verbatim>\<open>Boolean\<close> branch is never taken.
\<close>

theorem get_type_string_bool_is_Number:
  "get_type_string (PBool b) = ''Number''"
  by (simp add: get_type_string_def isinstance_int_float_def)

section \<open>Properties of \<^verbatim>\<open>get_schema\<close>\<close>

text \<open>
  Claim C2. The result of \<^verbatim>\<open>get_schema\<close> is not flat for a nested object: line
  157 stores the whole result of the recursive call (itself a mapping from
  table names to tables) under the child's name. For \<^verbatim>\<open>{"a": {"b": 1}}\<close> the
  value at \<^verbatim>\<open>A\<close> is the subtree \<^verbatim>\<open>{"A": {"b": ...}}\<close>, not the table of \<^verbatim>\<open>A\<close>.
\<close>

theorem get_schema_nested_object_not_flat:
  "get_schema (PDict [(''a'', PDict [(''b'', PInt 1)])]) ''.'' PNone =
     Inr [(''.'', PDict [(''a'', PDict [(''type'', PStr ''Object''), (''value'', PStr ''`A`'')])]),
          (''A'', PDict [(''A'', PDict [(''b'', PDict [(''type'', PStr ''Number'')])])])]"
  by code_simp

text \<open>
  Claim C3. For an array of scalars line 216 passes the array itself to
  \<^verbatim>\<open>get_type_string\<close>, not its first element, so the recorded type is always
  \<^verbatim>\<open>Array(Unknown)\<close>: \<^verbatim>\<open>{"xs": [1, 2]}\<close> yields \<^verbatim>\<open>Array(Unknown)\<close> for \<^verbatim>\<open>xs\<close>,
  where the claim says \<^verbatim>\<open>Array(Number)\<close>.
\<close>

theorem get_schema_scalar_array_Unknown:
  "get_schema (PDict [(''xs'', PList [PInt 1, PInt 2])]) ''.'' PNone =
     Inr [(''.'', PDict [(''xs'', PDict [(''type'', PStr ''Array(Unknown)''),
                                        (''value'', PStr ''Array of Unknown'')])])]"
  by code_simp

text \<open>
  Claim C6. \<^verbatim>\<open>get_schema\<close> is not total on its interface. With the default
  \<^verbatim>\<open>field_map=None\<close> an array of objects reads the local variable
  \<^verbatim>\<open>current_table_field_map\<close> that was never assigned
  (\<^verbatim>\<open>UnboundLocalError\<close>); with a field map whose table entry lacks the key of
  the array, \<^verbatim>\<open>.get('value_name')\<close> is called on \<^verbatim>\<open>None\<close> (\<^verbatim>\<open>AttributeError\<close>).
\<close>

theorem get_schema_raises:
  "get_schema (PDict [(''items'', PList [PDict [(''id'', PInt 1)]])]) ''.'' PNone
     = Inl UnboundLocalError
   \<and> get_schema (PDict [(''items'', PList [PDict [(''id'', PInt 1)]])]) ''.''
       (PDict [(''.'', PDict [(''other'', PDict [])])])
     = Inl AttributeError"
  by code_simp

subsection \<open>The \<^verbatim>\<open>optional\<close> flag\<close>

lemma plain_descriptors:
  "plain (object_descriptor n)" "plain (array_object_descriptor n)"
  "plain (array_descriptor v)" "plain (scalar_descriptor v)"
  by (simp_all add: plain_def object_descriptor_def array_object_descriptor_def
      array_descriptor_def scalar_descriptor_def dict_get_def)

lemma schema_fields_plain:
  "schema_fields entries tn fm ctfm (f0, c0) = Inr (f, c) \<Longrightarrow>
   (\<forall>(k, v) \<in> set f0. plain v) \<Longrightarrow>
   (\<forall>(k, v) \<in> set f. plain v) \<and> fst ` set f = fst ` set f0 \<union> fst ` set entries"
proof (induction entries arbitrary: f0 c0)
  case Nil
  then show ?case by simp
next
  case (Cons e entries)
  obtain json_key json_value where e: "e = (json_key, json_value)" by (cases e)
  from Cons.prems(1) obtain d c1 where
    step: "schema_fields entries tn fm ctfm (dict_set f0 json_key d, c1) = Inr (f, c)"
    and d: "plain d"
    unfolding e
    by (auto simp del: get_schema.simps simp: plain_descriptors
        split: pyval.splits sum.splits if_splits)
  have "\<forall>(k, v) \<in> set (dict_set f0 json_key d). plain v"
    using Cons.prems(2) d set_dict_set [of _ _ f0 json_key d] by blast
  from Cons.IH [OF step this] show ?case
    using e by (auto simp: keys_dict_set)
qed


lemma get_schema_own_table:
  assumes "get_schema item cn fm = Inr r"
    and "dict_get (child_tables_of item cn fm) cn = None"
  shows "\<exists>es f. item = PDict es \<and> dict_get r cn = Some (PDict f) \<and>
           (\<forall>(k, v) \<in> set f. plain v) \<and> fst ` set f = fst ` set es"
proof -
  from assms(1) obtain ctfm es f c where
    b: "bind_field_map fm cn = Inr ctfm" and item: "item = PDict es"
    and sf: "schema_fields es cn fm ctfm ([], []) = Inr (f, c)"
    and r: "r = dict_update [(cn, PDict f)] c"
    by (auto split: sum.splits pyval.splits)
  have "c = child_tables_of item cn fm"
    using b item sf by (simp add: child_tables_of_def)
  then have "cn \<notin> fst ` set c"
    using assms(2) by (simp add: dict_get_None_iff)
  then have "dict_get r cn = Some (PDict f)"
    unfolding r by (simp add: dict_get_update_other dict_get_Cons)
  moreover have "(\<forall>(k, v) \<in> set f. plain v) \<and> fst ` set f = fst ` set es"
    using schema_fields_plain [OF sf] by simp
  ultimately show ?thesis using item by auto
qed

lemma schema_items_plain:
  "schema_items xs cn fm acc = Inr new \<Longrightarrow>
   (\<forall>item \<in> set xs. dict_get (child_tables_of item cn fm) cn = None) \<Longrightarrow>
   (\<forall>(k, v) \<in> set acc. plain v) \<Longrightarrow>
   (\<forall>(k, v) \<in> set new. plain v) \<and> (\<forall>item \<in> set xs. isinstance_dict item) \<and>
   fst ` set new = fst ` set acc \<union> (\<Union>item \<in> set xs. fst ` set (the_dict item))"
proof (induction xs arbitrary: acc)
  case Nil
  then show ?case by simp
next
  case (Cons item xs)
  from Cons.prems(1) obtain r t td where
    g: "get_schema item cn fm = Inr r" and t: "dict_get r cn = Some t" and td: "t = PDict td"
    and step: "schema_items xs cn fm (dict_update acc td) = Inr new"
    by (auto simp del: get_schema.simps split: sum.splits option.splits pyval.splits)
  from get_schema_own_table [OF g] Cons.prems(2) t td obtain es where
    item: "item = PDict es" and p: "\<forall>(k, v) \<in> set td. plain v" and keys: "fst ` set td = fst ` set es"
    by auto
  have "\<forall>(k, v) \<in> set (dict_update acc td). plain v"
    using Cons.prems(3) p set_dict_update [of _ _ acc td] by blast
  from Cons.IH [OF step _ this] Cons.prems(2) show ?case
    using item keys by (auto simp: keys_dict_update isinstance_dict_def)
qed

lemma mark_optional_plain:
  "(\<forall>(k, v) \<in> set d. plain v) \<Longrightarrow>
   \<exists>d'. mark_optional cond d = Inr d' \<and> map fst d' = map fst d \<and>
     (\<forall>(k, v) \<in> set d'. \<exists>dd. v = PDict dd \<and>
        dict_get dd ''optional'' = (if cond k then Some (PBool True) else None))"
proof (induction d)
  case Nil
  show ?case by simp
next
  case (Cons e d)
  obtain k v where e: "e = (k, v)" by (cases e)
  from Cons.prems e obtain dd where v: "v = PDict dd" and dd: "dict_get dd ''optional'' = None"
    by (auto simp: plain_def)
  from Cons.IH Cons.prems obtain d' where d': "mark_optional cond d = Inr d'" "map fst d' = map fst d"
    "\<forall>(k, v) \<in> set d'. \<exists>dd. v = PDict dd \<and>
        dict_get dd ''optional'' = (if cond k then Some (PBool True) else None)"
    by auto
  show ?case
    using e v dd d' by (auto simp: set_optional_def dict_get_set)
qed

lemma py_in_the_dict: "py_in k item \<longleftrightarrow> k \<in> fst ` set (the_dict item)"
  by (cases item) (simp_all add: py_in_def dict_get_None_iff)

text \<open>
  Claim C4. One iteration of the loop of \<^verbatim>\<open>get_schema\<close> on a key whose value
  \<open>xs\<close> is an array of objects, from any state of \<^verbatim>\<open>current_table_fields\<close> and
  \<^verbatim>\<open>child_tables\<close>. No earlier contributor has produced the child table's name
  \<open>cn\<close>: \<^verbatim>\<open>child_tables\<close> has no table of that name, and no table nested in an
  element of the array has it. If the iteration returns, then \<^verbatim>\<open>child_tables\<close>
  holds under \<open>cn\<close> a table whose fields are the keys of the elements, and a
  field \<open>k\<close> of it has \<^verbatim>\<open>optional: True\<close> if \<open>k\<close> is absent from some element
  of the array and has no \<^verbatim>\<open>optional\<close> entry if \<open>k\<close> is in every element.
\<close>

theorem optional_iff_absent:
  assumes "xs \<noteq> []" and "isinstance_dict (hd xs)"
    and "list_child_name ctfm table_name json_key xs = Inr cn"
    and "dict_get child_tables cn = None"
    and "\<forall>item \<in> set xs. dict_get (child_tables_of item cn field_map) cn = None"
    and "schema_fields [(json_key, PList xs)] table_name field_map ctfm (fields, child_tables)
           = Inr (fields', child_tables')"
  shows "\<exists>t. dict_get child_tables' cn = Some (PDict t) \<and>
           (\<forall>item \<in> set xs. isinstance_dict item) \<and>
           fst ` set t = (\<Union>item \<in> set xs. fst ` set (the_dict item)) \<and>
           (\<forall>k d. dict_get t k = Some d \<longrightarrow>
              (\<exists>dd. d = PDict dd \<and> dict_get dd ''optional'' =
                 (if \<exists>item \<in> set xs. k \<notin> fst ` set (the_dict item)
                  then Some (PBool True) else None)))"
proof -
  from assms(1,2,3,6) obtain new where
    items: "schema_items xs cn field_map [] = Inr new"
    and ml: "merge_list_items xs cn child_tables new = Inr child_tables'"
    by (auto simp del: get_schema.simps split: sum.splits)
  have new: "(\<forall>(k, v) \<in> set new. plain v) \<and> (\<forall>item \<in> set xs. isinstance_dict item) \<and>
      fst ` set new = (\<Union>item \<in> set xs. fst ` set (the_dict item))"
    using schema_items_plain [OF items assms(5)] by simp
  let ?cond = "\<lambda>k. any_missing k xs \<or> (truthy PNone \<and> \<not> py_in k PNone)"
  from mark_optional_plain [of new ?cond] new obtain t where
    t: "mark_optional ?cond new = Inr t" "map fst t = map fst new"
      "\<forall>(k, v) \<in> set t. \<exists>dd. v = PDict dd \<and>
          dict_get dd ''optional'' = (if ?cond k then Some (PBool True) else None)"
    by blast
  have ct: "child_tables' = dict_set child_tables cn (PDict t)"
    using ml t(1) assms(4) by (simp add: merge_list_items_def)
  have cond: "?cond k \<longleftrightarrow> (\<exists>item \<in> set xs. k \<notin> fst ` set (the_dict item))" for k
    by (simp add: any_missing_def py_in_the_dict)
  have "fst ` set t = fst ` set new"
    using t(2) by (metis set_map)
  moreover have "\<exists>dd. d = PDict dd \<and> dict_get dd ''optional'' =
                 (if \<exists>item \<in> set xs. k \<notin> fst ` set (the_dict item)
                  then Some (PBool True) else None)" if "dict_get t k = Some d" for k d
  proof -
    have "(k, d) \<in> set t" using that by (simp add: dict_get_def map_of_SomeD)
    then show ?thesis using t(3) cond by fastforce
  qed
  ultimately show ?thesis using ct new by (auto simp: dict_get_set)
qed

theorem optional_iff_absent_witness:
  "\<exists>t. dict_get [(''Items'', PDict [(''id'', PDict [(''type'', PStr ''Number'')]),
                                      (''name'', PDict [(''type'', PStr ''String''), (''optional'', PBool True)])])]
            ''Items'' = Some (PDict t) \<and>
       (\<forall>item \<in> set [PDict [(''id'', PInt 1), (''name'', PStr ''x'')], PDict [(''id'', PInt 2)]].
          isinstance_dict item) \<and>
       fst ` set t = (\<Union>item \<in> set [PDict [(''id'', PInt 1), (''name'', PStr ''x'')], PDict [(''id'', PInt 2)]].
                        fst ` set (the_dict item)) \<and>
       (\<forall>k d. dict_get t k = Some d \<longrightarrow>
          (\<exists>dd. d = PDict dd \<and> dict_get dd ''optional'' =
             (if \<exists>item \<in> set [PDict [(''id'', PInt 1), (''name'', PStr ''x'')], PDict [(''id'', PInt 2)]].
                   k \<notin> fst ` set (the_dict item)
              then Some (PBool True) else None)))"
proof -
  let ?xs = "[PDict [(''id'', PInt 1), (''name'', PStr ''x'')], PDict [(''id'', PInt 2)]]"
  let ?fm = "PDict [(''X'', PDict [])]"
  have h1: "?xs \<noteq> []" by simp
  have h2: "isinstance_dict (hd ?xs)" by (simp add: isinstance_dict_def)
  have h3: "list_child_name (Some PNone) ''.'' ''items'' ?xs = Inr ''Items''" by code_simp
  have h4: "dict_get [] ''Items'' = None" by (simp add: dict_get_def)
  have h5: "\<forall>item \<in> set ?xs. dict_get (child_tables_of item ''Items'' ?fm) ''Items'' = None"
    by code_simp
  have h6: "schema_fields [(''items'', PList ?xs)] ''.'' ?fm (Some PNone) ([], [])
      = Inr ([(''items'', PDict [(''type'', PStr ''Array(Object)''), (''value'', PStr ''Array of `Items`'')])],
             [(''Items'', PDict [(''id'', PDict [(''type'', PStr ''Number'')]),
                                 (''name'', PDict [(''type'', PStr ''String''), (''optional'', PBool True)])])])"
    by code_simp
  show ?thesis using optional_iff_absent [OF h1 h2 h3 h4 h5 h6] .
qed

subsection \<open>The example of the specification\<close>

text \<open>
  Claim C5, as the code has it. With any field map that is not empty and has no
  entry for the root table, \<^verbatim>\<open>{"items":[{"id":1,"name":"x"},{"id":2}]}\<close> yields the
  root table \<^verbatim>\<open>.\<close> whose field \<^verbatim>\<open>items\<close> has type \<^verbatim>\<open>Array(Object)\<close> and refers to
  the table \<^verbatim>\<open>Items\<close> (the prefix of the root is left out of the names of its
  children), and the table \<^verbatim>\<open>Items\<close> with \<^verbatim>\<open>id\<close> of type \<^verbatim>\<open>Number\<close>, not optional,
  and \<^verbatim>\<open>name\<close> of type \<^verbatim>\<open>String\<close> with \<^verbatim>\<open>optional: True\<close>.
\<close>

theorem get_schema_items_example:
  assumes "fm \<noteq> []" and "dict_get fm ''.'' = None"
  shows "get_schema
           (PDict [(''items'', PList [PDict [(''id'', PInt 1), (''name'', PStr ''x'')],
                                     PDict [(''id'', PInt 2)]])])
           ''.'' (PDict fm) =
         Inr [(''.'', PDict [(''items'', PDict [(''type'', PStr ''Array(Object)''),
                                               (''value'', PStr ''Array of `Items`'')])]),
              (''Items'', PDict [(''id'', PDict [(''type'', PStr ''Number'')]),
                                 (''name'', PDict [(''type'', PStr ''String''),
                                                   (''optional'', PBool True)])])]"
proof -
  have "default_child_name ''.'' ''items'' = ''Items''"
    by code_simp
  then have name: "list_child_name (Some PNone) ''.'' ''items'' xs = Inr ''Items''" for xs
    by (simp add: list_child_name_def)
  have b0: "bind_field_map (PDict fm) ''.'' = Inr (Some PNone)"
    using assms by (simp add: bind_field_map_def py_get_def)
  obtain c where b1: "bind_field_map (PDict fm) ''Items'' = Inr (Some c)"
    using assms by (simp add: bind_field_map_def py_get_def)
  have i1: "get_schema (PDict [(''id'', PInt 1), (''name'', PStr ''x'')]) ''Items'' (PDict fm) =
      Inr [(''Items'', PDict [(''id'', PDict [(''type'', PStr ''Number'')]),
                              (''name'', PDict [(''type'', PStr ''String'')])])]"
    by (simp add: b1 scalar_descriptor_def get_type_string_def isinstance_int_float_def
        isinstance_bool_def isinstance_str_def dict_set_def dict_update_def)
  have i2: "get_schema (PDict [(''id'', PInt 2)]) ''Items'' (PDict fm) =
      Inr [(''Items'', PDict [(''id'', PDict [(''type'', PStr ''Number'')])])]"
    by (simp add: b1 scalar_descriptor_def get_type_string_def isinstance_int_float_def
        dict_set_def dict_update_def)
  have items: "schema_items [PDict [(''id'', PInt 1), (''name'', PStr ''x'')], PDict [(''id'', PInt 2)]]
      ''Items'' (PDict fm) [] =
      Inr [(''id'', PDict [(''type'', PStr ''Number'')]), (''name'', PDict [(''type'', PStr ''String'')])]"
    by (simp add: i1 i2 dict_get_def dict_set_def dict_update_def del: get_schema.simps)
  have ml: "merge_list_items [PDict [(''id'', PInt 1), (''name'', PStr ''x'')], PDict [(''id'', PInt 2)]]
      ''Items'' [] [(''id'', PDict [(''type'', PStr ''Number'')]), (''name'', PDict [(''type'', PStr ''String'')])]
      = Inr [(''Items'', PDict [(''id'', PDict [(''type'', PStr ''Number'')]),
                                 (''name'', PDict [(''type'', PStr ''String''), (''optional'', PBool True)])])]"
    by code_simp
  show ?thesis
    by (simp add: b0 name items ml isinstance_dict_def array_object_descriptor_def
        dict_set_def dict_update_def del: schema_items.simps)
qed

theorem get_schema_items_example_witness:
  "get_schema
     (PDict [(''items'', PList [PDict [(''id'', PInt 1), (''name'', PStr ''x'')],
                               PDict [(''id'', PInt 2)]])])
     ''.'' (PDict [(''Other'', PDict [])]) =
   Inr [(''.'', PDict [(''items'', PDict [(''type'', PStr ''Array(Object)''),
                                         (''value'', PStr ''Array of `Items`'')])]),
        (''Items'', PDict [(''id'', PDict [(''type'', PStr ''Number'')]),
                           (''name'', PDict [(''type'', PStr ''String''),
                                             (''optional'', PBool True)])])]"
proof -
  have h1: "[(''Other'', PDict [])] \<noteq> []" by simp
  have h2: "dict_get [(''Other'', PDict [])] ''.'' = None" by (simp add: dict_get_def)
  show ?thesis using get_schema_items_example [OF h1 h2] .
qed

text \<open>
  Claim C5 as stated fails. Without a field map the call raises (the unassigned
  \<^verbatim>\<open>current_table_field_map\<close> of claim C6), and with a field map that carries no
  hint for these tables the child table is named \<^verbatim>\<open>Items\<close>: there is no table
  \<^verbatim>\<open>.Items\<close>.
\<close>

theorem get_schema_example_as_stated:
  "get_schema
     (PDict [(''items'', PList [PDict [(''id'', PInt 1), (''name'', PStr ''x'')],
                               PDict [(''id'', PInt 2)]])])
     ''.'' PNone = Inl UnboundLocalError
   \<and> (case get_schema
             (PDict [(''items'', PList [PDict [(''id'', PInt 1), (''name'', PStr ''x'')],
                                       PDict [(''id'', PInt 2)]])])
             ''.'' (PDict [(''Hints'', PDict [])]) of
        Inl e \<Rightarrow> False
      | Inr tables \<Rightarrow> dict_get tables ''.Items'' = None \<and> dict_get tables ''Items'' \<noteq> None)"
  by code_simp

section \<open>Properties of \<^verbatim>\<open>merge\<close>\<close>

text \<open>
  Claim C10. \<^verbatim>\<open>merge\<close> is not atomic: merging \<^verbatim>\<open>{"b": 5, "a": 2}\<close> into
  \<^verbatim>\<open>{"a": 1}\<close> raises the conflict at \<^verbatim>\<open>a\<close>, and at that moment the first
  tree already holds the key \<^verbatim>\<open>b\<close> copied from the second, so it differs from
  its value before the call.
\<close>

theorem merge_not_atomic:
  "merge [(''a'', PInt 1)] [(''b'', PInt 5), (''a'', PInt 2)] [] =
     ([(''a'', PInt 1), (''b'', PInt 5)], Some (Exception ''Conflict at a''))
   \<and> [(''a'', PInt 1), (''b'', PInt 5)] \<noteq> [(''a'', PInt 1)]"
  by code_simp

subsection \<open>The steps of the loop of \<^verbatim>\<open>merge\<close>\<close>

lemma merge_absent:
  "dict_get a key = None \<Longrightarrow> merge a ((key, bv) # rest) path = merge (dict_set a key bv) rest path"
  by simp

lemma merge_recurse_raise:
  "dict_get a key = Some av \<Longrightarrow> isinstance_dict av \<and> isinstance_dict bv \<Longrightarrow>
   merge (the_dict av) (the_dict bv) (path @ [key]) = (ad, Some e) \<Longrightarrow>
   merge a ((key, bv) # rest) path = (dict_set a key (PDict ad), Some e)"
  by simp

lemma merge_recurse_ok:
  "dict_get a key = Some av \<Longrightarrow> isinstance_dict av \<and> isinstance_dict bv \<Longrightarrow>
   merge (the_dict av) (the_dict bv) (path @ [key]) = (ad, None) \<Longrightarrow>
   merge a ((key, bv) # rest) path = merge (dict_set a key (PDict ad)) rest path"
  by simp

lemma merge_equal:
  "dict_get a key = Some av \<Longrightarrow> \<not> (isinstance_dict av \<and> isinstance_dict bv) \<Longrightarrow> py_eq av bv \<Longrightarrow>
   merge a ((key, bv) # rest) path = merge a rest path"
  by auto

lemma merge_describe_a:
  "dict_get a key = Some av \<Longrightarrow> \<not> (isinstance_dict av \<and> isinstance_dict bv) \<Longrightarrow> \<not> py_eq av bv \<Longrightarrow>
   isinstance_dict av \<and> isinstance_str bv \<Longrightarrow>
   merge a ((key, bv) # rest) path =
     merge (dict_set a key (PDict (dict_set (the_dict av) ''description'' bv))) rest path"
  by auto

lemma merge_describe_b:
  "dict_get a key = Some av \<Longrightarrow> \<not> (isinstance_dict av \<and> isinstance_dict bv) \<Longrightarrow> \<not> py_eq av bv \<Longrightarrow>
   \<not> (isinstance_dict av \<and> isinstance_str bv) \<Longrightarrow> isinstance_dict bv \<and> isinstance_str av \<Longrightarrow>
   merge a ((key, bv) # rest) path =
     merge (dict_set a key (PDict (dict_set (the_dict bv) ''description'' av))) rest path"
  by auto

lemma merge_raise_here:
  "dict_get a key = Some av \<Longrightarrow> \<not> (isinstance_dict av \<and> isinstance_dict bv) \<Longrightarrow> \<not> py_eq av bv \<Longrightarrow>
   \<not> (isinstance_dict av \<and> isinstance_str bv) \<Longrightarrow> \<not> (isinstance_dict bv \<and> isinstance_str av) \<Longrightarrow>
   merge a ((key, bv) # rest) path =
     (a, Some (Exception (''Conflict at '' @ join_dots (path @ [key]))))"
  by auto

subsection \<open>Conflicts\<close>

lemma conflict_at_Nil: "\<not> conflict_at a [] q"
  by (cases q) (simp_all add: dict_get_def split: option.splits)

lemma conflict_at_split:
  assumes "dict_get rest key = None"
    and "\<And>k. k \<noteq> key \<Longrightarrow> dict_get a1 k = dict_get a k"
  shows "conflict_at a ((key, bv) # rest) q \<longleftrightarrow>
           conflict_at a [(key, bv)] q \<or> conflict_at a1 rest q"
proof (cases q)
  case Nil
  then show ?thesis by simp
next
  case (Cons k q')
  show ?thesis
  proof (cases "k = key")
    case True
    then show ?thesis using Cons assms(1) by (simp add: dict_get_Cons split: option.splits)
  next
    case False
    then show ?thesis using Cons assms(2) [OF False]
      by (simp add: dict_get_Cons dict_get_def split: option.splits)
  qed
qed

lemma conflict_at_head:
  "conflict_at a [(key, bv)] q \<longleftrightarrow>
     (\<exists>av q'. q = key # q' \<and> dict_get a key = Some av \<and>
        (if q' = [] then spec_conflict av bv
         else isinstance_dict av \<and> isinstance_dict bv \<and> conflict_at (the_dict av) (the_dict bv) q'))"
  by (cases q) (auto simp: dict_get_Cons dict_get_def split: option.splits)

lemma wf_py_the_dict: "wf_py bv \<Longrightarrow> wf_py (PDict (the_dict bv))"
  by (cases bv) simp_all

lemma merge_conflict:
  "wf_py (PDict b) \<Longrightarrow>
     ((\<exists>q. conflict_at a b q) \<longrightarrow> snd (merge a b path) \<noteq> None) \<and>
     (\<forall>e. snd (merge a b path) = Some e \<longrightarrow>
        (\<exists>q. e = Exception (''Conflict at '' @ join_dots (path @ q)) \<and> conflict_at a b q))"
proof (induction a b path rule: merge.induct)
  case (1 a path)
  show ?case by (simp add: conflict_at_Nil)
next
  case (2 a key bv rest path)
  let ?b = "(key, bv) # rest"
  have fresh: "dict_get rest key = None"
    using "2.prems" by (simp add: dict_get_None_iff)
  have wf_rest: "wf_py (PDict rest)" and wf_bv: "wf_py bv"
    using "2.prems" by simp_all
  have split: "conflict_at a ?b q \<longleftrightarrow> conflict_at a [(key, bv)] q \<or> conflict_at (dict_set a key v) rest q"
    for v q
    by (rule conflict_at_split [OF fresh]) (simp add: dict_get_set)
  have split_same: "conflict_at a ?b q \<longleftrightarrow> conflict_at a [(key, bv)] q \<or> conflict_at a rest q" for q
    by (rule conflict_at_split [OF fresh]) simp
  show ?case
  proof (cases "dict_get a key")
    case None
    have "\<not> conflict_at a [(key, bv)] q" for q
      using None by (simp add: conflict_at_head)
    then have eq: "conflict_at a ?b q \<longleftrightarrow> conflict_at (dict_set a key bv) rest q" for q
      using split by simp
    show ?thesis
      using "2.IH"(1) [OF None wf_rest]
      by (simp add: eq merge_absent [OF None] del: merge.simps)
  next
    case (Some av)
    show ?thesis
    proof (cases "isinstance_dict av \<and> isinstance_dict bv")
      case both: True
      obtain ad r where m: "merge (the_dict av) (the_dict bv) (path @ [key]) = (ad, r)"
        by (cases "merge (the_dict av) (the_dict bv) (path @ [key])")
      note ih = "2.IH"(2) [OF Some both wf_py_the_dict [OF wf_bv]]
      have nsc: "\<not> spec_conflict av bv" using both by (simp add: spec_conflict_def)
      show ?thesis
      proof (cases r)
        case None
        have "\<not> conflict_at (the_dict av) (the_dict bv) q'" for q'
          using ih m None by auto
        then have "\<not> conflict_at a [(key, bv)] q" for q
          using Some nsc by (auto simp: conflict_at_head)
        then have eq: "conflict_at a ?b q \<longleftrightarrow> conflict_at (dict_set a key (PDict ad)) rest q" for q
          using split by simp
        show ?thesis
          using "2.IH"(3) [OF Some both _ None wf_rest, of ad] m None
          by (simp add: eq merge_recurse_ok [OF Some both] del: merge.simps)
      next
        case (Some e)
        then obtain q' where e: "e = Exception (''Conflict at '' @ join_dots ((path @ [key]) @ q'))"
          and c: "conflict_at (the_dict av) (the_dict bv) q'"
          using ih m by auto
        have "q' \<noteq> []" using c by auto
        then have "conflict_at a ?b (key # q')"
          using c both \<open>dict_get a key = Some av\<close> by (simp add: dict_get_Cons)
        moreover have "snd (merge a ?b path) = Some e"
          using m Some merge_recurse_raise [OF \<open>dict_get a key = Some av\<close> both] by simp
        ultimately show ?thesis using e by auto
      qed
    next
      case notboth: False
      have head: "conflict_at a [(key, bv)] q \<longleftrightarrow> q = [key] \<and> spec_conflict av bv" for q
        using Some notboth by (auto simp: conflict_at_head)
      show ?thesis
      proof (cases "py_eq av bv")
        case True
        then have "\<not> spec_conflict av bv" by (simp add: spec_conflict_def)
        then have eq: "conflict_at a ?b q \<longleftrightarrow> conflict_at a rest q" for q
          using split_same head by simp
        show ?thesis
          using "2.IH"(4) [OF Some notboth True wf_rest]
          by (simp add: eq merge_equal [OF Some notboth True] del: merge.simps)
      next
        case neq: False
        show ?thesis
        proof (cases "isinstance_dict av \<and> isinstance_str bv")
          case r4: True
          then have "\<not> spec_conflict av bv" by (simp add: spec_conflict_def)
          then have eq: "conflict_at a ?b q \<longleftrightarrow>
              conflict_at (dict_set a key (PDict (dict_set (the_dict av) ''description'' bv))) rest q" for q
            using split head by simp
          show ?thesis
            using "2.IH"(5) [OF Some notboth neq r4 wf_rest]
            by (simp add: eq merge_describe_a [OF Some notboth neq r4] del: merge.simps)
        next
          case nr4: False
          show ?thesis
          proof (cases "isinstance_dict bv \<and> isinstance_str av")
            case r5: True
            then have "\<not> spec_conflict av bv" by (simp add: spec_conflict_def)
            then have eq: "conflict_at a ?b q \<longleftrightarrow>
                conflict_at (dict_set a key (PDict (dict_set (the_dict bv) ''description'' av))) rest q" for q
              using split head by simp
            show ?thesis
              using "2.IH"(6) [OF Some notboth neq nr4 r5 wf_rest]
              by (simp add: eq merge_describe_b [OF Some notboth neq nr4 r5] del: merge.simps)
          next
            case nr5: False
            have sc: "spec_conflict av bv"
              using notboth neq nr4 nr5 by (simp add: spec_conflict_def)
            have "conflict_at a ?b [key]" using sc Some by (simp add: dict_get_Cons)
            moreover have "merge a ?b path = (a, Some (Exception (''Conflict at '' @ join_dots (path @ [key]))))"
              by (rule merge_raise_here [OF Some notboth neq nr4 nr5])
            ultimately show ?thesis by auto
          qed
        qed
      qed
    qed
  qed
qed

lemma join_dots_concat:
  "ks \<noteq> [] \<Longrightarrow> join_dots ks = concat (map (\<lambda>k. k @ ''.'') (butlast ks)) @ last ks"
  by (induction ks rule: join_dots.induct) simp_all

text \<open>
  Claim C7. Whenever some key path of both trees holds two values that conflict
  (two unequal scalars, or shapes that no rule reconciles), \<^verbatim>\<open>merge\<close> raises,
  and the message of the exception is \<^verbatim>\<open>Conflict at\<close> followed by the full
  dotted path of a key at which the trees conflict (the first one that the
  traversal meets): the keys from the root, each but the last followed by a
  dot. The second tree is a Python dict (no key twice).
\<close>

theorem merge_raises_conflict:
  assumes "wf_py (PDict b)" and "conflict_at a b q"
  shows "\<exists>a' q'. conflict_at a b q' \<and>
           merge a b path =
             (a', Some (Exception (''Conflict at ''
                  @ concat (map (\<lambda>k. k @ ''.'') (butlast (path @ q'))) @ last (path @ q'))))"
proof -
  from merge_conflict [OF assms(1), of a path] assms(2)
  obtain e where e: "snd (merge a b path) = Some e"
    by auto
  with merge_conflict [OF assms(1), of a path]
  obtain q' where q': "e = Exception (''Conflict at '' @ join_dots (path @ q'))" "conflict_at a b q'"
    by auto
  have "q' \<noteq> []"
    using q'(2) by auto
  then have "join_dots (path @ q') =
      concat (map (\<lambda>k. k @ ''.'') (butlast (path @ q'))) @ last (path @ q')"
    by (intro join_dots_concat) simp
  with e q' show ?thesis
    by (cases "merge a b path") auto
qed

text \<open>
  Merging \<^verbatim>\<open>{"a": 1}\<close> into \<^verbatim>\<open>{"a": 2}\<close> raises \<^verbatim>\<open>Conflict at a\<close>, and a conflict
  one level down is reported with both keys.
\<close>

theorem merge_raises_conflict_witness:
  "(\<exists>a'. merge [(''a'', PInt 2)] [(''a'', PInt 1)] [] = (a', Some (Exception ''Conflict at a'')))
   \<and> (\<exists>a'. merge [(''t'', PDict [(''a'', PInt 2)])] [(''t'', PDict [(''a'', PInt 1)])] [''root'']
             = (a', Some (Exception ''Conflict at root.t.a'')))"
proof -
  have w1: "wf_py (PDict [(''a'', PInt 1)])"
    by simp
  have c1: "conflict_at [(''a'', PInt 2)] [(''a'', PInt 1)] [''a'']"
    by code_simp
  have only1: "q = [''a'']" if "conflict_at [(''a'', PInt 2)] [(''a'', PInt 1)] q" for q
    using that
    by (cases q) (auto simp: dict_get_def isinstance_dict_def split: if_splits)
  have w2: "wf_py (PDict [(''t'', PDict [(''a'', PInt 1)])])"
    by simp
  have c2: "conflict_at [(''t'', PDict [(''a'', PInt 2)])] [(''t'', PDict [(''a'', PInt 1)])] [''t'', ''a'']"
    by code_simp
  have only2: "q = [''t'', ''a'']"
    if "conflict_at [(''t'', PDict [(''a'', PInt 2)])] [(''t'', PDict [(''a'', PInt 1)])] q" for q
  proof (cases q)
    case Nil
    then show ?thesis using that by simp
  next
    case (Cons k q')
    then have k: "k = ''t''" and q': "q' \<noteq> []"
      and in': "conflict_at [(''a'', PInt 2)] [(''a'', PInt 1)] q'"
      using that
      by (auto simp: dict_get_def isinstance_dict_def spec_conflict_def split: if_splits)
    then show ?thesis using Cons only1 [OF in'] by simp
  qed
  from merge_raises_conflict [OF w1 c1, of "[]"] only1 have
    "\<exists>a'. merge [(''a'', PInt 2)] [(''a'', PInt 1)] [] = (a', Some (Exception ''Conflict at a''))"
    by fastforce
  moreover from merge_raises_conflict [OF w2 c2, of "[''root'']"] only2 have
    "\<exists>a'. merge [(''t'', PDict [(''a'', PInt 2)])] [(''t'', PDict [(''a'', PInt 1)])] [''root'']
             = (a', Some (Exception ''Conflict at root.t.a''))"
    by fastforce
  ultimately show ?thesis
    by blast
qed

subsection \<open>Leaves\<close>

lemma leaves_PDict: "set (leaves (PDict d)) = (\<Union>(k, v) \<in> set d. set (leaves v))"
  by auto

lemma leaves_the_dict: "isinstance_dict v \<Longrightarrow> leaves (PDict (the_dict v)) = leaves v"
  by (cases v) (simp_all add: isinstance_dict_def)

lemma leaves_not_dict: "\<not> isinstance_dict v \<Longrightarrow> leaves v = [v]"
  by (cases v) (simp_all add: isinstance_dict_def)

lemma leaves_dict_get: "dict_get a k = Some av \<Longrightarrow> set (leaves av) \<subseteq> set (leaves (PDict a))"
  by (auto simp: dict_get_def dest!: map_of_SomeD)

lemma leaves_dict_set_new: "set (leaves v) \<subseteq> set (leaves (PDict (dict_set d k v)))"
  by (induction d) (auto simp: dict_set_def)

lemma leaves_dict_set_keep:
  "(\<And>av. dict_get d k = Some av \<Longrightarrow> set (leaves av) \<subseteq> set (leaves v)) \<Longrightarrow>
     set (leaves (PDict d)) \<subseteq> set (leaves (PDict (dict_set d k v)))"
proof (induction d)
  case Nil
  show ?case by simp
next
  case (Cons e d)
  obtain k' v' where e: "e = (k', v')" by (cases e)
  show ?case
  proof (cases "k' = k")
    case True
    then have "set (leaves v') \<subseteq> set (leaves v)"
      using Cons.prems [of v'] e by (simp add: dict_get_def)
    then show ?thesis using True e by (auto simp: dict_set_def)
  next
    case False
    then have "set (leaves (PDict d)) \<subseteq> set (leaves (PDict (dict_set d k v)))"
      using Cons.IH Cons.prems e by (simp add: dict_get_def)
    then show ?thesis using False e by (auto simp: dict_set_def)
  qed
qed

lemma py_eq_dict_both: "py_eq av bv \<Longrightarrow> isinstance_dict av = isinstance_dict bv"
  by (cases av; cases bv) (simp_all add: isinstance_dict_def)

lemma description_free_cong:
  "(\<And>k. k \<in> fst ` set b \<Longrightarrow> dict_get a1 k = dict_get a k) \<Longrightarrow>
     description_free a1 b = description_free a b"
proof (induction b)
  case Nil
  show ?case by simp
next
  case (Cons e b)
  obtain key bv where e: "e = (key, bv)" by (cases e)
  have "dict_get a1 key = dict_get a key" using Cons.prems e by simp
  moreover have "description_free a1 b = description_free a b"
    using Cons.IH Cons.prems by simp
  ultimately show ?case using e by simp
qed


lemma merge_keeps_leaves:
  "wf_py (PDict b) \<Longrightarrow> description_free a b \<Longrightarrow> merge a b path = (r, None) \<Longrightarrow>
     set (leaves (PDict a)) \<subseteq> set (leaves (PDict r)) \<and>
     (\<forall>v \<in> set (leaves (PDict b)).
        v \<in> set (leaves (PDict r)) \<or> (\<exists>w \<in> set (leaves (PDict r)). py_eq w v))"
proof (induction a b path arbitrary: r rule: merge.induct)
  case (1 a path)
  then show ?case by simp
next
  case (2 a key bv rest path)
  let ?b = "(key, bv) # rest"
  have fresh: "key \<notin> fst ` set rest" and wf_rest: "wf_py (PDict rest)" and wf_bv: "wf_py bv"
    using "2.prems"(1) by simp_all
  have df_rest: "description_free a rest" using "2.prems"(2) by simp
  have df_set: "description_free (dict_set a key v) rest" for v
  proof -
    have "dict_get (dict_set a key v) k = dict_get a k" if "k \<in> fst ` set rest" for k
      using that fresh by (auto simp: dict_get_set)
    then show ?thesis using df_rest description_free_cong [of rest "dict_set a key v" a] by blast
  qed
  have leaves_b: "set (leaves (PDict ?b)) = set (leaves bv) \<union> set (leaves (PDict rest))"
    by simp
  show ?case
  proof (cases "dict_get a key")
    case None
    let ?a1 = "dict_set a key bv"
    have m: "merge ?a1 rest path = (r, None)"
      using "2.prems"(3) merge_absent [OF None] by simp
    note ih = "2.IH"(1) [OF None wf_rest df_set m]
    have "set (leaves (PDict a)) \<subseteq> set (leaves (PDict ?a1))"
      by (rule leaves_dict_set_keep) (simp add: None)
    moreover have "set (leaves bv) \<subseteq> set (leaves (PDict ?a1))"
      by (rule leaves_dict_set_new)
    ultimately show ?thesis using ih unfolding leaves_b by blast
  next
    case (Some av)
    show ?thesis
    proof (cases "isinstance_dict av \<and> isinstance_dict bv")
      case both: True
      obtain ad x where n: "merge (the_dict av) (the_dict bv) (path @ [key]) = (ad, x)"
        by (cases "merge (the_dict av) (the_dict bv) (path @ [key])")
      have x: "x = None"
      proof (cases x)
        case (Some e)
        then show ?thesis
          using "2.prems"(3) merge_recurse_raise [OF \<open>dict_get a key = Some av\<close> both, of path ad e rest] n
          by simp
      qed simp
      let ?a1 = "dict_set a key (PDict ad)"
      have m: "merge ?a1 rest path = (r, None)"
        using "2.prems"(3) merge_recurse_ok [OF Some both, of path ad rest] n x by simp
      have df_in: "description_free (the_dict av) (the_dict bv)"
        using "2.prems"(2) Some both by simp
      have ih_in: "set (leaves av) \<subseteq> set (leaves (PDict ad)) \<and>
          (\<forall>v \<in> set (leaves bv).
             v \<in> set (leaves (PDict ad)) \<or> (\<exists>w \<in> set (leaves (PDict ad)). py_eq w v))"
      proof -
        have n': "merge (the_dict av) (the_dict bv) (path @ [key]) = (ad, None)"
          using n x by simp
        have l: "leaves (PDict (the_dict av)) = leaves av" "leaves (PDict (the_dict bv)) = leaves bv"
          using both by (simp_all only: leaves_the_dict)
        show ?thesis
          using "2.IH"(2) [OF Some both wf_py_the_dict [OF wf_bv] df_in n'] unfolding l .
      qed
      have ih: "set (leaves (PDict ?a1)) \<subseteq> set (leaves (PDict r)) \<and>
          (\<forall>v \<in> set (leaves (PDict rest)).
             v \<in> set (leaves (PDict r)) \<or> (\<exists>w \<in> set (leaves (PDict r)). py_eq w v))"
        using "2.IH"(3) [OF Some both _ x wf_rest df_set m] n x by simp
      have "set (leaves (PDict a)) \<subseteq> set (leaves (PDict ?a1))"
        by (rule leaves_dict_set_keep) (use Some ih_in in simp)
      moreover have "set (leaves (PDict ad)) \<subseteq> set (leaves (PDict ?a1))"
        by (rule leaves_dict_set_new)
      ultimately show ?thesis using ih ih_in unfolding leaves_b by blast
    next
      case notboth: False
      show ?thesis
      proof (cases "py_eq av bv")
        case True
        have m: "merge a rest path = (r, None)"
          using "2.prems"(3) merge_equal [OF Some notboth True] by simp
        note ih = "2.IH"(4) [OF Some notboth True wf_rest df_rest m]
        have nd: "\<not> isinstance_dict av" "\<not> isinstance_dict bv"
          using notboth py_eq_dict_both [OF True] by auto
        have "av \<in> set (leaves (PDict a))"
          using leaves_dict_get [OF Some] unfolding leaves_not_dict [OF nd(1)] by simp
        then have av_r: "av \<in> set (leaves (PDict r))"
          using ih by blast
        have "\<exists>w \<in> set (leaves (PDict r)). py_eq w v" if "v \<in> set (leaves bv)" for v
        proof -
          have "v = bv" using that unfolding leaves_not_dict [OF nd(2)] by simp
          then show ?thesis using av_r True by blast
        qed
        then show ?thesis using ih unfolding leaves_b by blast
      next
        case neq: False
        show ?thesis
        proof (cases "isinstance_dict av \<and> isinstance_str bv")
          case r4: True
          let ?d = "dict_set (the_dict av) ''description'' bv"
          let ?a1 = "dict_set a key (PDict ?d)"
          have m: "merge ?a1 rest path = (r, None)"
            using "2.prems"(3) merge_describe_a [OF Some notboth neq r4] by simp
          note ih = "2.IH"(5) [OF Some notboth neq r4 wf_rest df_set m]
          have free: "dict_get (the_dict av) ''description'' = None"
            using "2.prems"(2) Some notboth r4 by auto
          have "set (leaves (PDict (the_dict av))) \<subseteq> set (leaves (PDict ?d))"
            by (rule leaves_dict_set_keep) (simp add: free)
          moreover have "leaves (PDict (the_dict av)) = leaves av"
            using r4 by (simp only: leaves_the_dict)
          ultimately have "set (leaves av) \<subseteq> set (leaves (PDict ?d))"
            by (simp only:)
          then have "set (leaves (PDict a)) \<subseteq> set (leaves (PDict ?a1))"
            by (intro leaves_dict_set_keep) (use Some in simp)
          moreover have "set (leaves bv) \<subseteq> set (leaves (PDict ?a1))"
            using leaves_dict_set_new [of bv "the_dict av" "''description''"]
              leaves_dict_set_new [of "PDict ?d" a key] by blast
          ultimately show ?thesis using ih unfolding leaves_b by blast
        next
          case nr4: False
          show ?thesis
          proof (cases "isinstance_dict bv \<and> isinstance_str av")
            case r5: True
            let ?d = "dict_set (the_dict bv) ''description'' av"
            let ?a1 = "dict_set a key (PDict ?d)"
            have m: "merge ?a1 rest path = (r, None)"
              using "2.prems"(3) merge_describe_b [OF Some notboth neq nr4 r5] by simp
            note ih = "2.IH"(6) [OF Some notboth neq nr4 r5 wf_rest df_set m]
            have free: "dict_get (the_dict bv) ''description'' = None"
              using "2.prems"(2) Some notboth nr4 r5 by auto
            have "set (leaves (PDict (the_dict bv))) \<subseteq> set (leaves (PDict ?d))"
              by (rule leaves_dict_set_keep) (simp add: free)
            moreover have "leaves (PDict (the_dict bv)) = leaves bv"
              using r5 by (simp only: leaves_the_dict)
            ultimately have bv_in: "set (leaves bv) \<subseteq> set (leaves (PDict ?d))"
              by (simp only:)
            have "set (leaves av) \<subseteq> set (leaves (PDict ?d))"
              by (rule leaves_dict_set_new)
            then have "set (leaves (PDict a)) \<subseteq> set (leaves (PDict ?a1))"
              by (intro leaves_dict_set_keep) (use Some in simp)
            moreover have "set (leaves bv) \<subseteq> set (leaves (PDict ?a1))"
              using bv_in leaves_dict_set_new [of "PDict ?d" a key] by blast
            ultimately show ?thesis using ih unfolding leaves_b by blast
          next
            case nr5: False
            show ?thesis
              using "2.prems"(3) merge_raise_here [OF Some notboth neq nr4 nr5] by simp
          qed
        qed
      qed
    qed
  qed
qed

text \<open>
  Claim C8, as the code has it. When \<^verbatim>\<open>merge\<close> returns, every leaf value of the
  first tree is a leaf of the result and every leaf value of the second tree is
  a leaf of the result or equal (\<^verbatim>\<open>==\<close>) to one, provided that no mapping that meets a
  string under the same key (rules 4 and 5) has a \<^verbatim>\<open>description\<close> already,
  and that the second tree is a Python dict (no key twice).
\<close>

theorem merge_keeps_data:
  assumes "wf_py (PDict b)" and "description_free a b" and "merge a b path = (r, None)"
  shows "(\<forall>v \<in> set (leaves (PDict a)). v \<in> set (leaves (PDict r))) \<and>
         (\<forall>v \<in> set (leaves (PDict b)).
            v \<in> set (leaves (PDict r)) \<or> (\<exists>w \<in> set (leaves (PDict r)). py_eq w v))"
  using merge_keeps_leaves [OF assms] by blast

theorem merge_keeps_data_witness:
  "PStr ''An example field''
     \<in> set (leaves (PDict [(''a'', PDict [(''type'', PStr ''Number''),
                                           (''description'', PStr ''An example field'')]),
                            (''n'', PInt 1), (''z'', PFloat (NaN 0))]))
   \<and> (\<exists>w \<in> set (leaves (PDict [(''a'', PDict [(''type'', PStr ''Number''),
                                                 (''description'', PStr ''An example field'')]),
                                  (''n'', PInt 1), (''z'', PFloat (NaN 0))])).
         py_eq w (PBool True))
   \<and> PFloat (NaN 0)
       \<in> set (leaves (PDict [(''a'', PDict [(''type'', PStr ''Number''),
                                             (''description'', PStr ''An example field'')]),
                              (''n'', PInt 1), (''z'', PFloat (NaN 0))]))"
proof -
  let ?a = "[(''a'', PStr ''An example field''), (''n'', PInt 1)]"
  let ?b = "[(''a'', PDict [(''type'', PStr ''Number'')]), (''n'', PBool True), (''z'', PFloat (NaN 0))]"
  let ?r = "[(''a'', PDict [(''type'', PStr ''Number''), (''description'', PStr ''An example field'')]),
             (''n'', PInt 1), (''z'', PFloat (NaN 0))]"
  have w: "wf_py (PDict ?b)"
    by simp
  have d: "description_free ?a ?b"
    by code_simp
  have m: "merge ?a ?b [] = (?r, None)"
    by code_simp
  have la: "PStr ''An example field'' \<in> set (leaves (PDict ?a))"
    by simp
  have lb: "PBool True \<in> set (leaves (PDict ?b))" "PFloat (NaN 0) \<in> set (leaves (PDict ?b))"
    by simp_all
  have n1: "PBool True \<notin> set (leaves (PDict ?r))"
    by simp
  have n2: "\<not> (\<exists>w \<in> set (leaves (PDict ?r)). py_eq w (PFloat (NaN 0)))"
    by (simp add: same_nan_def)
  from merge_keeps_data [OF w d m] la lb n1 n2 show ?thesis
    by blast
qed

text \<open>
  Claim C8 as stated fails: a mapping that already has a \<^verbatim>\<open>description\<close> and
  meets a string gets its description overwritten (line 358), without an
  error, and the old leaf is in neither tree afterwards.
\<close>

theorem merge_loses_description:
  "merge [(''f'', PDict [(''description'', PStr ''old'')])] [(''f'', PStr ''new'')] []
     = ([(''f'', PDict [(''description'', PStr ''new'')])], None)
   \<and> PStr ''old'' \<in> set (leaves (PDict [(''f'', PDict [(''description'', PStr ''old'')])]))
   \<and> \<not> (\<exists>w \<in> set (leaves (PDict [(''f'', PDict [(''description'', PStr ''new'')])])). py_eq w (PStr ''old''))"
  by code_simp

subsection \<open>Merging a tree into itself\<close>

lemma py_eq_or_same_refl: "wf_py v \<Longrightarrow> same_nan v v \<or> py_eq v v"
proof (induction v)
  case (PFloat f)
  show ?case by (cases f) (simp_all add: same_nan_def)
next
  case (PList xs)
  then show ?case by (auto intro!: list.rel_refl_strong)
next
  case (PDict d)
  then show ?case by (fastforce simp: snds.simps)
qed simp_all

lemma py_eq_refl: "wf_py v \<Longrightarrow> \<not> is_nan v \<Longrightarrow> py_eq v v"
  using py_eq_or_same_refl [of v]
  by (auto simp: same_nan_def is_nan_def split: pyval.splits pyfloat.splits)

lemma merge_self_aux:
  "distinct (map fst a) \<Longrightarrow> set bs \<subseteq> set a \<Longrightarrow> (\<forall>(k, v) \<in> set a. wf_py v) \<Longrightarrow>
   (\<forall>v \<in> set (leaves (PDict a)). \<not> is_nan v) \<Longrightarrow> merge a bs path = (a, None)"
proof (induction a bs path rule: merge.induct)
  case (1 a path)
  show ?case by simp
next
  case (2 a key bv rest path)
  have in_a: "(key, bv) \<in> set a" and rest: "set rest \<subseteq> set a"
    using "2.prems"(2) by auto
  have get: "dict_get a key = Some bv"
    using "2.prems"(1) in_a by (rule dict_get_distinct)
  have wf: "wf_py bv"
    using "2.prems"(3) in_a by auto
  have no_nan: "\<forall>v \<in> set (leaves bv). \<not> is_nan v"
    using "2.prems"(4) leaves_dict_get [OF get] by blast
  show ?case
  proof (cases "isinstance_dict bv")
    case True
    then obtain d where bv: "bv = PDict d"
      by (cases bv) (simp_all add: isinstance_dict_def)
    have "merge (the_dict bv) (the_dict bv) (path @ [key]) = (the_dict bv, None)"
      using "2.IH"(2) [OF get] True wf no_nan bv by auto
    moreover have "dict_set a key (PDict (the_dict bv)) = a"
      using get bv by (simp add: dict_set_same)
    moreover have "merge a rest path = (a, None)"
      using "2.IH"(3) [OF get, of "the_dict bv" None] True calculation "2.prems"(1,3,4) rest
      by simp
    ultimately show ?thesis
      using merge_recurse_ok [OF get, of bv path "the_dict bv" rest] True by simp
  next
    case False
    have "\<not> is_nan bv"
      using no_nan leaves_not_dict [OF False] by simp
    then have eq: "py_eq bv bv"
      using wf by (intro py_eq_refl)
    have "merge a rest path = (a, None)"
      using "2.IH"(4) [OF get _ eq] False "2.prems"(1,3,4) rest by simp
    then show ?thesis
      using merge_equal [OF get _ eq, of rest path] False by simp
  qed
qed

text \<open>
  Claim C9, as the code has it. Merging a copy of a tree into the tree returns
  without raising and leaves the tree as it was, provided that no value held by
  a mapping of the tree is NaN: every key is found, nested mappings are merged
  recursively and every other value is equal to itself. (A NaN inside a list
  does no harm: the copy holds the same float object, and the comparison of
  lists accepts identical elements.)
\<close>

theorem merge_copy_unchanged:
  "wf_py (PDict a) \<Longrightarrow> \<forall>v \<in> set (leaves (PDict a)). \<not> is_nan v \<Longrightarrow> merge a a path = (a, None)"
  by (rule merge_self_aux) auto

theorem merge_copy_unchanged_witness:
  "merge [(''t'', PDict [(''type'', PStr ''Number''), (''tags'', PList [PInt 1, PFloat (NaN 0)])]),
          (''d'', PStr ''x'')]
         [(''t'', PDict [(''type'', PStr ''Number''), (''tags'', PList [PInt 1, PFloat (NaN 0)])]),
          (''d'', PStr ''x'')] []
     = ([(''t'', PDict [(''type'', PStr ''Number''), (''tags'', PList [PInt 1, PFloat (NaN 0)])]),
         (''d'', PStr ''x'')], None)"
proof -
  let ?a = "[(''t'', PDict [(''type'', PStr ''Number''), (''tags'', PList [PInt 1, PFloat (NaN 0)])]),
             (''d'', PStr ''x'')]"
  have w: "wf_py (PDict ?a)"
    by simp
  have n: "\<forall>v \<in> set (leaves (PDict ?a)). \<not> is_nan v"
    by (simp add: is_nan_def)
  show ?thesis
    using merge_copy_unchanged [OF w n, of "[]"] .
qed

text \<open>
  Claim C9 as stated fails: a NaN is not equal to itself (line 354), so merging
  \<^verbatim>\<open>{"x": NaN}\<close> into its copy raises the conflict of line 364.
\<close>

theorem merge_copy_nan_raises:
  "merge [(''x'', PFloat (NaN 0))] [(''x'', PFloat (NaN 0))] []
     = ([(''x'', PFloat (NaN 0))], Some (Exception ''Conflict at x''))"
  by code_simp

end
